theory Spec2Isabelle
  imports Main "HOL-Library.Sublist" "HOL-Library.Multiset"
begin

section \<open>Strings\<close>

text \<open>
  A JavaScript string is modelled as a \<^typ>\<open>string\<close>, each \<^typ>\<open>char\<close> read as the code unit
  with the same number (U+0000 to U+00FF). On these code units the three character
  operations the source uses are closed and are written out below; code units above
  U+00FF are outside the model.
\<close>

text \<open>
  \<^verbatim>\<open>\s\<close> in a regular expression, and the characters \<^verbatim>\<open>trim()\<close> removes: tab, line feed,
  vertical tab, form feed, carriage return, space and the no-break space.
\<close>

definition isSpace :: "char \<Rightarrow> bool" where
  "isSpace c = (of_char c \<in> {9, 10, 11, 12, 13, 32, 160 :: nat})"

text \<open>\<^verbatim>\<open>\w\<close>: the letters A to Z and a to z, the digits and the underscore.\<close>

definition isWord :: "char \<Rightarrow> bool" where
  "isWord c = (let n = (of_char c :: nat) in
     (48 \<le> n \<and> n \<le> 57) \<or> (65 \<le> n \<and> n \<le> 90) \<or> n = 95 \<or> (97 \<le> n \<and> n \<le> 122))"

definition isHyphen :: "char \<Rightarrow> bool" where
  "isHyphen c = (c = CHR ''-'')"

text \<open>
  \<^verbatim>\<open>toLowerCase()\<close> on one code unit: A to Z, and the capital letters U+00C0 to U+00DE
  without the multiplication sign U+00D7, move up by 32.
\<close>

definition toLowerChar :: "char \<Rightarrow> char" where
  "toLowerChar c = (let n = (of_char c :: nat) in
     if (65 \<le> n \<and> n \<le> 90) \<or> (192 \<le> n \<and> n \<le> 222 \<and> n \<noteq> 215) then char_of (n + 32) else c)"

definition toLowerCase :: "string \<Rightarrow> string" where
  "toLowerCase s = map toLowerChar s"

text \<open>\<^verbatim>\<open>trim()\<close>: the whitespace at both ends goes.\<close>

definition trimStart :: "string \<Rightarrow> string" where
  "trimStart s = dropWhile isSpace s"

definition trimEnd :: "string \<Rightarrow> string" where
  "trimEnd s = rev (dropWhile isSpace (rev s))"

definition trim :: "string \<Rightarrow> string" where
  "trim s = trimEnd (trimStart s)"

text \<open>
  \<^verbatim>\<open>s.replace(/P+/g, r)\<close> for a character class \<open>P\<close>: scanning from the left, every
  maximal run of characters of the class is replaced by \<open>r\<close>.
\<close>

function replaceRuns :: "(char \<Rightarrow> bool) \<Rightarrow> string \<Rightarrow> string \<Rightarrow> string" where
  "replaceRuns P r [] = []"
| "replaceRuns P r (c # cs) =
     (if P c then r @ replaceRuns P r (dropWhile P cs) else c # replaceRuns P r cs)"
  by pat_completeness auto
termination
  by (relation "measure (\<lambda>(P, r, s). length s)") (auto simp: less_Suc_eq_le length_dropWhile_le)

text \<open>\<^verbatim>\<open>s.replace(/[^\w\s-]/g, '')\<close>: only word characters, whitespace and hyphens stay.\<close>

definition keptInSlug :: "char \<Rightarrow> bool" where
  "keptInSlug c = (isWord c \<or> isSpace c \<or> isHyphen c)"

definition removeSpecial :: "string \<Rightarrow> string" where
  "removeSpecial s = filter keptInSlug s"

text \<open>
  \<^verbatim>\<open>s.replace(/^-|-$/g, '')\<close>: a hyphen at the very start goes, then a hyphen at the very
  end of what is left (the two matches never overlap).
\<close>

definition stripHyphens :: "string \<Rightarrow> string" where
  "stripHyphens s =
     (let s1 = (case s of [] \<Rightarrow> [] | c # cs \<Rightarrow> if isHyphen c then cs else c # cs)
      in if s1 \<noteq> [] \<and> isHyphen (last s1) then butlast s1 else s1)"

text \<open>\<^verbatim>\<open>s.includes(q)\<close>: \<open>q\<close> occurs in \<open>s\<close> as a contiguous piece.\<close>

fun includesStr :: "string \<Rightarrow> string \<Rightarrow> bool" where
  "includesStr [] q = (q = [])"
| "includesStr (c # cs) q = (prefix q (c # cs) \<or> includesStr cs q)"

section \<open>Normalizer\<close>

text \<open>The test \<^verbatim>\<open>if (!title) return ''\<close> is the first branch of each function.\<close>

definition normalizeTitle :: "string \<Rightarrow> string" where
  "normalizeTitle title =
     (if title = [] then []
      else replaceRuns isSpace '' '' (trim (toLowerCase title)))"

definition titleToSlug :: "string \<Rightarrow> string" where
  "titleToSlug title =
     (if title = [] then []
      else stripHyphens
             (replaceRuns isHyphen ''-''
               (replaceRuns isSpace ''-''
                 (removeSpecial (trim (toLowerCase title))))))"

definition normalizeSlug :: "string \<Rightarrow> string" where
  "normalizeSlug slug =
     (if slug = [] then []
      else stripHyphens
             (replaceRuns isHyphen ''-''
               (replaceRuns isSpace ''-'' (trim (toLowerCase slug)))))"

section \<open>Recency windows\<close>

text \<open>
  \<^verbatim>\<open>getShortestRange\<close> walks the fixed order and returns the first window that the
  given keys include.
\<close>

definition rangeOrder :: "string list" where
  "rangeOrder = [''30-days'', ''60-days'', ''90-days'', ''all-time'']"

fun firstIncluded :: "string list \<Rightarrow> string list \<Rightarrow> string option" where
  "firstIncluded [] ranges = None"
| "firstIncluded (r # order) ranges =
     (if r \<in> set ranges then Some r else firstIncluded order ranges)"

definition getShortestRange :: "string list \<Rightarrow> string" where
  "getShortestRange ranges =
     (case firstIncluded rangeOrder ranges of Some r \<Rightarrow> r | None \<Rightarrow> ''all-time'')"

text \<open>
  The two tables of the query layer. A table is looked up by its own keys; a key that
  is absent gives \<^verbatim>\<open>undefined\<close>, and \<^verbatim>\<open>||\<close> then takes the right-hand side.

  An object literal also answers to the names it inherits, such as \<^verbatim>\<open>constructor\<close>.
  For such a request token \<^verbatim>\<open>rangeMap\<close> yields the inherited member, whose string form
  is no key of \<^verbatim>\<open>rangeHierarchy\<close>, so that \<^verbatim>\<open>filterByTimeRange\<close> works with the full list
  of windows: the same list as the model computes for any token that is no key.
  \<^verbatim>\<open>getIncludedRanges\<close> is called by \<^verbatim>\<open>filterByTimeRange\<close> only and is modelled for the
  arguments it gets there.
\<close>

definition rangeMap :: "string \<Rightarrow> string option" where
  "rangeMap t =
     (if t = ''30'' then Some ''30-days''
      else if t = ''60'' then Some ''60-days''
      else if t = ''90'' then Some ''90-days''
      else if t = ''all'' then Some ''all-time''
      else None)"

definition rangeHierarchy :: "string \<Rightarrow> string list option" where
  "rangeHierarchy t =
     (if t = ''30-days'' then Some [''30-days'']
      else if t = ''60-days'' then Some [''30-days'', ''60-days'']
      else if t = ''90-days'' then Some [''30-days'', ''60-days'', ''90-days'']
      else if t = ''all-time'' then Some [''30-days'', ''60-days'', ''90-days'', ''all-time'']
      else None)"

definition getIncludedRanges :: "string \<Rightarrow> string list" where
  "getIncludedRanges targetRange =
     (case rangeHierarchy targetRange of
        Some ranges \<Rightarrow> ranges
      | None \<Rightarrow> [''30-days'', ''60-days'', ''90-days'', ''all-time''])"

text \<open>\<^verbatim>\<open>const targetRange = rangeMap[timeRange] || timeRange\<close> in \<^verbatim>\<open>filterByTimeRange\<close>.\<close>

definition targetRangeOf :: "string \<Rightarrow> string" where
  "targetRangeOf timeRange = (case rangeMap timeRange of Some r \<Rightarrow> r | None \<Rightarrow> timeRange)"

section \<open>The index\<close>

text \<open>
  The objects of the source are records. Where two kinds of object of the source share a field name the
  record fields carry a prefix: \<open>c_\<close> for a company entry of the index
  (\<^verbatim>\<open>name\<close>, \<^verbatim>\<open>frequency\<close>, \<^verbatim>\<open>timeRanges\<close>, \<^verbatim>\<open>last_seen\<close>), \<open>p_\<close> for a problem
  (\<^verbatim>\<open>problem\<close>, \<^verbatim>\<open>slug\<close>, \<^verbatim>\<open>companies\<close>), \<open>f_\<close> and \<open>v_\<close> for the filtered answer
  and its companies, \<open>r_\<close> for a search result.

  A parsed row has a title, a string, and a frequency, an integer or absent.
  \<^verbatim>\<open>timeRanges\<close> is an object used as a set of keys: the list of its keys. A
  \<^verbatim>\<open>Map\<close> is the list of its entries in insertion order, and \<^verbatim>\<open>Object.entries\<close> of
  the parsed data is the list of its entries in iteration order.
\<close>

record raw_record =
  title :: string
  frequency :: "int option"

record company_entry =
  c_name :: string
  c_frequency :: int
  c_timeRanges :: "string list"
  c_last_seen :: string

record problem_data =
  p_problem :: string
  p_slug :: string
  p_companies :: "company_entry list"

type_synonym parsed_data = "(string \<times> (string \<times> raw_record list) list) list"

type_synonym problem_map = "(string \<times> problem_data) list"

text \<open>\<^verbatim>\<open>Map.set\<close>: the value of a present key is replaced in place, a new key goes last.\<close>

fun mapSet :: "('k \<times> 'v) list \<Rightarrow> 'k \<Rightarrow> 'v \<Rightarrow> ('k \<times> 'v) list" where
  "mapSet [] k v = [(k, v)]"
| "mapSet ((k', v') # m) k v = (if k' = k then (k, v) # m else (k', v') # mapSet m k v)"

text \<open>\<^verbatim>\<open>Set.add\<close>, and setting a key of an object to \<^verbatim>\<open>true\<close>.\<close>

definition addKey :: "string list \<Rightarrow> string \<Rightarrow> string list" where
  "addKey ks k = (if k \<in> set ks then ks else ks @ [k])"

text \<open>
  The body of the innermost loop of \<^verbatim>\<open>buildProblemIndex\<close>, on one company entry:
  a truthy frequency raises the stored one to the maximum, the window is recorded,
  and \<^verbatim>\<open>last_seen\<close> is computed again.
\<close>

definition updateEntry :: "string \<Rightarrow> raw_record \<Rightarrow> company_entry \<Rightarrow> company_entry" where
  "updateEntry timeRange problem companyEntry =
     (let e1 = (case frequency problem of
                  None \<Rightarrow> companyEntry
                | Some f \<Rightarrow> if f \<noteq> 0
                            then companyEntry\<lparr>c_frequency := max (c_frequency companyEntry) f\<rparr>
                            else companyEntry);
          e2 = e1\<lparr>c_timeRanges := addKey (c_timeRanges e1) timeRange\<rparr>
      in e2\<lparr>c_last_seen := getShortestRange (c_timeRanges e2)\<rparr>)"

text \<open>
  A fresh entry has no \<^verbatim>\<open>last_seen\<close> yet; the same iteration assigns it before
  anything reads it.
\<close>

definition newEntry :: "string \<Rightarrow> company_entry" where
  "newEntry companyName =
     \<lparr>c_name = companyName, c_frequency = 0, c_timeRanges = [], c_last_seen = []\<rparr>"

text \<open>The entry that \<^verbatim>\<open>find\<close> returns is changed in place.\<close>

fun updateFirst :: "('a \<Rightarrow> bool) \<Rightarrow> ('a \<Rightarrow> 'a) \<Rightarrow> 'a list \<Rightarrow> 'a list" where
  "updateFirst P f [] = []"
| "updateFirst P f (x # xs) = (if P x then f x # xs else x # updateFirst P f xs)"

definition touchCompany ::
  "string \<Rightarrow> string \<Rightarrow> raw_record \<Rightarrow> company_entry list \<Rightarrow> company_entry list" where
  "touchCompany companyName timeRange problem companies =
     (let companies1 =
            (if list_ex (\<lambda>c. c_name c = companyName) companies then companies
             else companies @ [newEntry companyName])
      in updateFirst (\<lambda>c. c_name c = companyName) (updateEntry timeRange problem) companies1)"

text \<open>One row, on the problem map: the problem is created at first sight of its slug.\<close>

definition indexRecord ::
  "string \<Rightarrow> string \<Rightarrow> problem_map \<Rightarrow> raw_record \<Rightarrow> problem_map" where
  "indexRecord companyName timeRange problemMap problem =
     (let slug = titleToSlug (title problem);
          problemData =
            (case map_of problemMap slug of
               Some d \<Rightarrow> d
             | None \<Rightarrow> \<lparr>p_problem = title problem, p_slug = slug, p_companies = []\<rparr>)
      in mapSet problemMap slug
           (problemData\<lparr>p_companies :=
              touchCompany companyName timeRange problem (p_companies problemData)\<rparr>))"

record build_state =
  b_problemMap :: problem_map
  b_titleMap :: "(string \<times> string) list"
  b_companiesSet :: "string list"

definition processProblem ::
  "string \<Rightarrow> string \<Rightarrow> build_state \<Rightarrow> raw_record \<Rightarrow> build_state" where
  "processProblem companyName timeRange st problem =
     st\<lparr>b_problemMap := indexRecord companyName timeRange (b_problemMap st) problem,
        b_titleMap :=
          (if map_of (b_problemMap st) (titleToSlug (title problem)) = None
           then mapSet (b_titleMap st) (normalizeTitle (title problem))
                  (titleToSlug (title problem))
           else b_titleMap st)\<rparr>"

definition processTimeRange ::
  "string \<Rightarrow> build_state \<Rightarrow> string \<times> raw_record list \<Rightarrow> build_state" where
  "processTimeRange companyName st entry =
     foldl (processProblem companyName (fst entry)) st (snd entry)"

definition processCompany ::
  "build_state \<Rightarrow> string \<times> (string \<times> raw_record list) list \<Rightarrow> build_state" where
  "processCompany st entry =
     foldl (processTimeRange (fst entry))
       (st\<lparr>b_companiesSet := addKey (b_companiesSet st) (fst entry)\<rparr>) (snd entry)"

definition buildLoop :: "parsed_data \<Rightarrow> build_state" where
  "buildLoop parsedData =
     foldl processCompany \<lparr>b_problemMap = [], b_titleMap = [], b_companiesSet = []\<rparr> parsedData"

text \<open>
  \<^verbatim>\<open>companies.sort((a, b) => b.frequency - a.frequency)\<close>: descending by frequency.
  \<^verbatim>\<open>Array.prototype.sort\<close> is stable (ECMAScript 2019), as \<^const>\<open>sort_key\<close> is.
\<close>

definition sortCompanies :: "company_entry list \<Rightarrow> company_entry list" where
  "sortCompanies companies = sort_key (\<lambda>c. - c_frequency c) companies"

definition sortAll :: "problem_map \<Rightarrow> problem_map" where
  "sortAll problemMap =
     map (\<lambda>(slug, d). (slug, d\<lparr>p_companies := sortCompanies (p_companies d)\<rparr>)) problemMap"

record data_service =
  problemMap :: problem_map
  titleMap :: "(string \<times> string) list"
  lastUpdated :: "string option"
  totalProblems :: nat
  totalCompanies :: nat

definition newDataService :: data_service where
  "newDataService =
     \<lparr>problemMap = [], titleMap = [], lastUpdated = None, totalProblems = 0, totalCompanies = 0\<rparr>"

text \<open>
  \<^verbatim>\<open>buildProblemIndex\<close> works on three local structures and assigns the four fields
  of the service after its loops. It has no \<^verbatim>\<open>throw\<close> and no early \<^verbatim>\<open>return\<close>.
\<close>

definition buildProblemIndex :: "data_service \<Rightarrow> parsed_data \<Rightarrow> data_service" where
  "buildProblemIndex ds parsedData =
     (let st = buildLoop parsedData;
          sorted = sortAll (b_problemMap st)
      in ds\<lparr>problemMap := sorted,
            titleMap := b_titleMap st,
            totalProblems := length sorted,
            totalCompanies := length (b_companiesSet st)\<rparr>)"

section \<open>Queries\<close>

record company_view =
  v_name :: string
  v_frequency :: int
  v_last_seen :: string

record filtered_problem =
  f_problem :: string
  f_slug :: string
  f_companies :: "company_view list"

text \<open>
  \<^verbatim>\<open>filterByTimeRange\<close> answers with a deep clone of the problem when the window is
  falsy (absent or the empty string) and with the filtered object otherwise.
\<close>

datatype query_result = Clone problem_data | Filtered filtered_problem

definition projectCompany :: "company_entry \<Rightarrow> company_view" where
  "projectCompany company =
     \<lparr>v_name = c_name company, v_frequency = c_frequency company,
      v_last_seen = c_last_seen company\<rparr>"

definition seenIn :: "string list \<Rightarrow> company_entry \<Rightarrow> bool" where
  "seenIn includedRanges company =
     list_ex (\<lambda>range. range \<in> set (c_timeRanges company)) includedRanges"

definition filterByTimeRange :: "problem_data \<Rightarrow> string option \<Rightarrow> query_result" where
  "filterByTimeRange problemData timeRange =
     (case timeRange of
        None \<Rightarrow> Clone problemData
      | Some t \<Rightarrow>
          if t = [] then Clone problemData
          else let includedRanges = getIncludedRanges (targetRangeOf t)
               in Filtered
                    \<lparr>f_problem = p_problem problemData,
                     f_slug = p_slug problemData,
                     f_companies =
                       map projectCompany
                         (filter (seenIn includedRanges) (p_companies problemData))\<rparr>)"

definition queryBySlug :: "data_service \<Rightarrow> string \<Rightarrow> string option \<Rightarrow> query_result option" where
  "queryBySlug ds slug timeRange =
     (case map_of (problemMap ds) (normalizeSlug slug) of
        None \<Rightarrow> None
      | Some problemData \<Rightarrow> Some (filterByTimeRange problemData timeRange))"

text \<open>\<^verbatim>\<open>if (!slug) return null\<close> also catches the empty slug.\<close>

definition queryByTitle :: "data_service \<Rightarrow> string \<Rightarrow> string option \<Rightarrow> query_result option" where
  "queryByTitle ds t timeRange =
     (case map_of (titleMap ds) (normalizeTitle t) of
        None \<Rightarrow> None
      | Some slug \<Rightarrow> if slug = [] then None else queryBySlug ds slug timeRange)"

record search_result =
  r_problem :: string
  r_slug :: string
  r_companyCount :: nat

definition matchesSearch :: "string \<Rightarrow> string \<times> problem_data \<Rightarrow> bool" where
  "matchesSearch normalizedQuery entry =
     (includesStr (toLowerCase (p_problem (snd entry))) normalizedQuery
      \<or> includesStr (fst entry) normalizedQuery)"

definition searchResult :: "string \<times> problem_data \<Rightarrow> search_result" where
  "searchResult entry =
     \<lparr>r_problem = p_problem (snd entry), r_slug = p_slug (snd entry),
      r_companyCount = length (p_companies (snd entry))\<rparr>"

text \<open>
  The loop of \<^verbatim>\<open>searchProblems\<close>: the test \<^verbatim>\<open>results.length >= limit\<close> comes after the
  \<^verbatim>\<open>push\<close>, and \<^verbatim>\<open>break\<close> ends the scan.
\<close>

fun searchLoop :: "string \<Rightarrow> int \<Rightarrow> problem_map \<Rightarrow> search_result list \<Rightarrow> search_result list" where
  "searchLoop normalizedQuery limit [] results = results"
| "searchLoop normalizedQuery limit (entry # rest) results =
     (if matchesSearch normalizedQuery entry
      then let results1 = results @ [searchResult entry]
           in if int (length results1) \<ge> limit then results1
              else searchLoop normalizedQuery limit rest results1
      else searchLoop normalizedQuery limit rest results)"

definition searchProblems :: "data_service \<Rightarrow> string \<Rightarrow> int \<Rightarrow> search_result list" where
  "searchProblems ds query limit =
     searchLoop (trim (toLowerCase query)) limit (problemMap ds) []"

record status =
  s_lastUpdated :: "string option"
  s_totalProblems :: nat
  s_totalCompanies :: nat

definition getStatus :: "data_service \<Rightarrow> status" where
  "getStatus ds =
     \<lparr>s_lastUpdated = lastUpdated ds, s_totalProblems = totalProblems ds,
      s_totalCompanies = totalCompanies ds\<rparr>"

section \<open>Rebuild\<close>

text \<open>
  A thrown \<^verbatim>\<open>Error\<close> is a value, with its message. The download and the walk over
  the archive are input and output: \<^verbatim>\<open>fetchRepository\<close> is modelled from the point where
  they have either thrown or filled \<^verbatim>\<open>repoData\<close>. The function throws when no company
  was loaded, and its \<^verbatim>\<open>catch\<close> wraps every error.
\<close>

datatype error = Error string

type_synonym repo_data = "(string \<times> (string \<times> string) list) list"

definition fetchRepository :: "error + repo_data \<Rightarrow> error + repo_data" where
  "fetchRepository loaded =
     (case loaded of
        Inl (Error m) \<Rightarrow> Inl (Error (''GitHub fetch failed: '' @ m))
      | Inr repoData \<Rightarrow>
          if length repoData = 0
          then Inl (Error (''GitHub fetch failed: ''
                 @ ''No company data found in repository. Check file structure.''))
          else Inr repoData)"

text \<open>
  \<^verbatim>\<open>updateData\<close>: fetch, parse, build, then the time stamp; its \<^verbatim>\<open>catch\<close> logs and
  throws the error again. The parser runs on a library outside the repository, so the
  outcome of \<^verbatim>\<open>parseAllCSVs\<close> on the fetched data is a parameter, as is the clock.
  The result pairs what the caller gets with the service afterwards.
\<close>

definition updateData ::
  "data_service \<Rightarrow> error + repo_data \<Rightarrow> (repo_data \<Rightarrow> error + parsed_data) \<Rightarrow> string
     \<Rightarrow> (error + unit) \<times> data_service" where
  "updateData ds loaded parseAllCSVs now =
     (case fetchRepository loaded of
        Inl e \<Rightarrow> (Inl e, ds)
      | Inr repoData \<Rightarrow>
          (case parseAllCSVs repoData of
             Inl e \<Rightarrow> (Inl e, ds)
           | Inr parsedData \<Rightarrow>
               (Inr (), (buildProblemIndex ds parsedData)\<lparr>lastUpdated := Some now\<rparr>)))"

section \<open>Notions the properties are stated with\<close>

text \<open>
  The rows of the parsed data in the order the three nested loops visit them, each with
  its company and its window.
\<close>

definition allRecords :: "parsed_data \<Rightarrow> (string \<times> string \<times> raw_record) list" where
  "allRecords parsedData =
     concat (map (\<lambda>(companyName, timeRanges).
       concat (map (\<lambda>(timeRange, problems).
         map (\<lambda>problem. (companyName, timeRange, problem)) problems) timeRanges)) parsedData)"

text \<open>The positive frequencies reported for a problem and a company.\<close>

definition reportedFrequencies ::
  "(string \<times> string \<times> raw_record) list \<Rightarrow> string \<Rightarrow> string \<Rightarrow> int set" where
  "reportedFrequencies rows slug companyName =
     {f. \<exists>timeRange problem. (companyName, timeRange, problem) \<in> set rows
           \<and> titleToSlug (title problem) = slug \<and> frequency problem = Some f \<and> 0 < f}"

text \<open>
  The companies of a problem in the order of their first row for it: the company of
  every row of the problem, each name kept where it first occurs.
\<close>

definition firstOccurrences :: "'a list \<Rightarrow> 'a list" where
  "firstOccurrences xs = rev (remdups (rev xs))"

definition discoveryOrder :: "(string \<times> string \<times> raw_record) list \<Rightarrow> string \<Rightarrow> string list" where
  "discoveryOrder rows slug =
     firstOccurrences
       (map fst (filter (\<lambda>(companyName, timeRange, problem).
          titleToSlug (title problem) = slug) rows))"

text \<open>
  The problem map that the rows give when they are folded in one after the other, and
  what holds of it after any number of rows: one entry for every slug that occurred,
  its companies in discovery order, each with the maximum of the positive frequencies
  that were reported for it.
\<close>

definition indexRows :: "problem_map \<Rightarrow> (string \<times> string \<times> raw_record) list \<Rightarrow> problem_map" where
  "indexRows pm0 rows =
     foldl (\<lambda>pm (companyName, timeRange, problem). indexRecord companyName timeRange pm problem)
       pm0 rows"

definition rowSlug :: "string \<times> string \<times> raw_record \<Rightarrow> string" where
  "rowSlug row = titleToSlug (title (snd (snd row)))"

definition indexed :: "(string \<times> string \<times> raw_record) list \<Rightarrow> problem_map \<Rightarrow> bool" where
  "indexed rows pm \<longleftrightarrow>
     distinct (map fst pm) \<and> fst ` set pm = rowSlug ` set rows
     \<and> (\<forall>slug d. map_of pm slug = Some d \<longrightarrow>
           p_slug d = slug
           \<and> map c_name (p_companies d) = discoveryOrder rows slug
           \<and> (\<forall>c \<in> set (p_companies d).
                 c_frequency c = Max (insert 0 (reportedFrequencies rows slug (c_name c)))))"

text \<open>
  Search as the specification words it: the query and the display title are both
  comparison-normalized (\<^const>\<open>normalizeTitle\<close>), a problem is included when the query
  occurs in the normalized title or in the identity key, and the first \<open>limit\<close>
  matches are returned.
\<close>

definition searchAsSpecified :: "data_service \<Rightarrow> string \<Rightarrow> int \<Rightarrow> search_result list" where
  "searchAsSpecified ds query limit =
     take (nat limit)
       (map searchResult
         (filter (\<lambda>entry. includesStr (normalizeTitle (p_problem (snd entry))) (normalizeTitle query)
                          \<or> includesStr (fst entry) (normalizeTitle query))
            (problemMap ds)))"

text \<open>
  Punctuation as the word is commonly used, for the ASCII range: every printable
  character that is neither a letter, a digit nor the space.
\<close>

definition isPunctuation :: "char \<Rightarrow> bool" where
  "isPunctuation c = (let n = (of_char c :: nat) in
     (33 \<le> n \<and> n \<le> 47) \<or> (58 \<le> n \<and> n \<le> 64) \<or> (91 \<le> n \<and> n \<le> 96) \<or> (123 \<le> n \<and> n \<le> 126))"

text \<open>
  What is left of a title when case, the characters that \<^const>\<open>titleToSlug\<close> removes,
  surrounding whitespace and the length of whitespace runs are disregarded.
\<close>

definition titleSkeleton :: "string \<Rightarrow> string" where
  "titleSkeleton t = replaceRuns isSpace '' '' (trim (removeSpecial (toLowerCase t)))"

text \<open>
  The last three replacements of \<^const>\<open>titleToSlug\<close>: whitespace runs to a hyphen, hyphen
  runs to one hyphen, a hyphen at either end removed.
\<close>

definition slugTail :: "string \<Rightarrow> string" where
  "slugTail s = stripHyphens (replaceRuns isHyphen ''-'' (replaceRuns isSpace ''-'' s))"

subsection \<open>Example data\<close>

text \<open>The two-company scenario of the specification, and the service built from it.\<close>

definition scenario :: parsed_data where
  "scenario =
     [(''Acme'', [(''30-days'', [\<lparr>title = ''Two Sum'', frequency = Some 5\<rparr>])]),
      (''Beta'', [(''90-days'', [\<lparr>title = ''two   sum'', frequency = Some 2\<rparr>])])]"

definition activeService :: data_service where
  "activeService = buildProblemIndex newDataService scenario"

text \<open>A company whose only file is the six-months file, which the fetcher labels 180-days.\<close>

definition sixMonthsOnly :: parsed_data where
  "sixMonthsOnly =
     [(''Acme'', [(''180-days'', [\<lparr>title = ''Two Sum'', frequency = Some 5\<rparr>])])]"

text \<open>Three companies on one problem, the first and the third with the same frequency.\<close>

definition tieScenario :: parsed_data where
  "tieScenario =
     [(''Acme'', [(''30-days'', [\<lparr>title = ''Two Sum'', frequency = Some 3\<rparr>])]),
      (''Beta'', [(''30-days'', [\<lparr>title = ''Two Sum'', frequency = Some 7\<rparr>])]),
      (''Cato'', [(''90-days'', [\<lparr>title = ''two sum!'', frequency = Some 3\<rparr>]),
                  (''all-time'', [\<lparr>title = ''Two Sum'', frequency = None\<rparr>])])]"

section \<open>Evaluation of the example\<close>

lemma activeService_value:
  "activeService =
     \<lparr>problemMap =
        [(''two-sum'',
          \<lparr>p_problem = ''Two Sum'', p_slug = ''two-sum'',
           p_companies =
             [\<lparr>c_name = ''Acme'', c_frequency = 5, c_timeRanges = [''30-days''],
               c_last_seen = ''30-days''\<rparr>,
              \<lparr>c_name = ''Beta'', c_frequency = 2, c_timeRanges = [''90-days''],
               c_last_seen = ''90-days''\<rparr>]\<rparr>)],
      titleMap = [(''two sum'', ''two-sum'')], lastUpdated = None,
      totalProblems = 1, totalCompanies = 2\<rparr>"
  by code_simp

lemma allRecords_scenario:
  "allRecords scenario =
     [(''Acme'', ''30-days'', \<lparr>title = ''Two Sum'', frequency = Some 5\<rparr>),
      (''Beta'', ''90-days'', \<lparr>title = ''two   sum'', frequency = Some 2\<rparr>)]"
  by (simp add: allRecords_def scenario_def)

lemma slug_examples:
  "titleToSlug ''Two Sum'' = ''two-sum''" "titleToSlug ''two   sum'' = ''two-sum''"
  by code_simp+

section \<open>Rebuilds: C1 and C2\<close>

text \<open>
  C1, as claimed: building from an empty mapping fails with a no-data error and the
  active snapshot stays. The code does otherwise. \<^const>\<open>buildProblemIndex\<close> has no
  failing branch; on the empty mapping its loops do nothing and it then assigns the
  fields: the service that held one problem holds none afterwards.
\<close>

theorem build_empty_replaces_snapshot:
  "problemMap activeService \<noteq> [] \<and> totalProblems activeService = 1
   \<and> buildProblemIndex activeService [] =
       activeService\<lparr>problemMap := [], titleMap := [], totalProblems := 0, totalCompanies := 0\<rparr>
   \<and> totalProblems (buildProblemIndex activeService []) = 0"
  by (simp add: activeService_value buildProblemIndex_def buildLoop_def sortAll_def)

text \<open>
  C1, amended: \<^const>\<open>buildProblemIndex\<close> on the empty mapping returns and installs the
  empty snapshot (no problem, no title, both counts 0). The no-data error belongs to
  the stage before it: when no company was loaded \<^const>\<open>fetchRepository\<close> throws, and
  \<^const>\<open>updateData\<close> then hands that error to its caller and leaves the service as it
  was.
\<close>

theorem build_empty_installs_empty_fetch_rejects:
  "buildProblemIndex ds [] =
     ds\<lparr>problemMap := [], titleMap := [], totalProblems := 0, totalCompanies := 0\<rparr>
   \<and> updateData ds (Inr []) parseAllCSVs now =
       (Inl (Error ''GitHub fetch failed: No company data found in repository. Check file structure.''), ds)"
  by (simp add: buildProblemIndex_def buildLoop_def sortAll_def updateData_def fetchRepository_def)

theorem build_empty_installs_empty_fetch_rejects_witness:
  "snd (updateData activeService (Inr []) (\<lambda>repoData. Inr []) ''2026-01-01T02:00:00.000Z'')
     = activeService
   \<and> totalProblems (buildProblemIndex activeService []) = 0"
  using build_empty_installs_empty_fetch_rejects
          [of activeService "\<lambda>repoData. Inr []" "''2026-01-01T02:00:00.000Z''"]
  by simp

text \<open>
  C2: a rebuild that fails leaves the service exactly as it was (problem map, title
  map, counts and time stamp), so the status reports the same number of problems as
  before. In \<^const>\<open>updateData\<close> the fetch and the parse can fail, and both come before
  the first assignment; \<^const>\<open>buildProblemIndex\<close> has no failing branch on rows whose
  titles are strings, and assigns only after its loops.
\<close>

theorem failed_update_keeps_snapshot:
  assumes "fst (updateData ds loaded parseAllCSVs now) = Inl e"
  shows "snd (updateData ds loaded parseAllCSVs now) = ds
    \<and> s_totalProblems (getStatus (snd (updateData ds loaded parseAllCSVs now)))
        = s_totalProblems (getStatus ds)"
  using assms by (auto simp: updateData_def split: sum.splits)

theorem failed_update_keeps_snapshot_witness:
  "fst (updateData activeService (Inl (Error ''timeout of 120000ms exceeded''))
          (\<lambda>repoData. Inr []) ''2026-01-01T02:00:00.000Z'')
     = Inl (Error ''GitHub fetch failed: timeout of 120000ms exceeded'')
   \<and> s_totalProblems (getStatus (snd (updateData activeService
          (Inl (Error ''timeout of 120000ms exceeded''))
          (\<lambda>repoData. Inr []) ''2026-01-01T02:00:00.000Z''))) = 1"
proof -
  have h: "fst (updateData activeService (Inl (Error ''timeout of 120000ms exceeded''))
             (\<lambda>repoData. Inr []) ''2026-01-01T02:00:00.000Z'')
     = Inl (Error ''GitHub fetch failed: timeout of 120000ms exceeded'')"
    by (simp add: updateData_def fetchRepository_def)
  have "s_totalProblems (getStatus activeService) = 1"
    by (simp add: getStatus_def activeService_value)
  with h failed_update_keeps_snapshot [OF h] show ?thesis by simp
qed

section \<open>Recency windows and the windowed lookup: C8, C3 and C5\<close>

text \<open>
  C8: the included windows are cumulative. The window at position \<open>i\<close> of the fixed
  order includes the windows up to and including itself, so the tightest includes only
  itself; a request token that resolves to none of the four names includes all four in
  the fixed order; and the request token \<^verbatim>\<open>all\<close> resolves to all four.
\<close>

theorem included_ranges_cumulative:
  "(i < length rangeOrder \<longrightarrow> getIncludedRanges (rangeOrder ! i) = take (Suc i) rangeOrder)
   \<and> (targetRangeOf t \<notin> set rangeOrder \<longrightarrow> getIncludedRanges (targetRangeOf t) = rangeOrder)
   \<and> targetRangeOf ''all'' = ''all-time''
   \<and> getIncludedRanges (targetRangeOf ''all'') = rangeOrder"
proof -
  have "i < 4 \<Longrightarrow> i = 0 \<or> i = 1 \<or> i = 2 \<or> i = 3" by arith
  then have a: "i < length rangeOrder
      \<Longrightarrow> getIncludedRanges (rangeOrder ! i) = take (Suc i) rangeOrder"
    by (auto simp: rangeOrder_def getIncludedRanges_def rangeHierarchy_def)
  have b: "u \<notin> set rangeOrder \<Longrightarrow> getIncludedRanges u = rangeOrder" for u
    by (simp add: rangeOrder_def getIncludedRanges_def rangeHierarchy_def)
  have c: "targetRangeOf ''all'' = ''all-time''"
    by (simp add: targetRangeOf_def rangeMap_def)
  have d: "getIncludedRanges ''all-time'' = rangeOrder"
    by (simp add: rangeOrder_def getIncludedRanges_def rangeHierarchy_def)
  from a b c d show ?thesis by simp
qed

theorem included_ranges_cumulative_witness:
  "getIncludedRanges ''60-days'' = [''30-days'', ''60-days'']
   \<and> getIncludedRanges (targetRangeOf ''180'') =
       [''30-days'', ''60-days'', ''90-days'', ''all-time'']"
proof -
  have t: "targetRangeOf ''180'' = ''180''"
    by (simp add: targetRangeOf_def rangeMap_def)
  show ?thesis
    using included_ranges_cumulative [of 1 "''180''"] by (simp add: rangeOrder_def t)
qed

lemma seenIn_inter:
  "seenIn includedRanges c \<longleftrightarrow> set (c_timeRanges c) \<inter> set includedRanges \<noteq> {}"
  by (auto simp: seenIn_def list_ex_iff)

text \<open>
  C3: for a problem of the index and a requested window (a non-empty token), the lookup
  answers with exactly the companies whose recorded windows meet the windows included
  for the request, in the order the index holds them, each reduced to name, frequency
  and last-seen window; the answer's companies have no field for the recorded windows.
\<close>

theorem windowed_lookup_filters_and_projects:
  assumes "map_of (problemMap ds) (normalizeSlug slug) = Some problemData" and "t \<noteq> []"
  shows "queryBySlug ds slug (Some t) =
     Some (Filtered
       \<lparr>f_problem = p_problem problemData, f_slug = p_slug problemData,
        f_companies =
          map (\<lambda>c. \<lparr>v_name = c_name c, v_frequency = c_frequency c,
                     v_last_seen = c_last_seen c\<rparr>)
            (filter (\<lambda>c. set (c_timeRanges c) \<inter> set (getIncludedRanges (targetRangeOf t)) \<noteq> {})
               (p_companies problemData))\<rparr>)"
proof -
  have "projectCompany =
      (\<lambda>c. \<lparr>v_name = c_name c, v_frequency = c_frequency c, v_last_seen = c_last_seen c\<rparr>)"
    by (rule ext) (simp add: projectCompany_def)
  moreover have "seenIn (getIncludedRanges (targetRangeOf t))
      = (\<lambda>c. set (c_timeRanges c) \<inter> set (getIncludedRanges (targetRangeOf t)) \<noteq> {})"
    by (rule ext) (simp add: seenIn_inter)
  ultimately show ?thesis
    using assms by (simp add: queryBySlug_def filterByTimeRange_def)
qed

theorem windowed_lookup_filters_and_projects_witness:
  "queryBySlug activeService ''Two Sum'' (Some ''30'') =
     Some (Filtered
       \<lparr>f_problem = ''Two Sum'', f_slug = ''two-sum'',
        f_companies = [\<lparr>v_name = ''Acme'', v_frequency = 5, v_last_seen = ''30-days''\<rparr>]\<rparr>)"
proof -
  have n: "normalizeSlug ''Two Sum'' = ''two-sum''" by code_simp
  have m: "map_of (problemMap activeService) (normalizeSlug ''Two Sum'') =
     Some \<lparr>p_problem = ''Two Sum'', p_slug = ''two-sum'',
           p_companies =
             [\<lparr>c_name = ''Acme'', c_frequency = 5, c_timeRanges = [''30-days''],
               c_last_seen = ''30-days''\<rparr>,
              \<lparr>c_name = ''Beta'', c_frequency = 2, c_timeRanges = [''90-days''],
               c_last_seen = ''90-days''\<rparr>]\<rparr>"
    by (simp add: n activeService_value)
  have t: "''30'' \<noteq> []" by simp
  show ?thesis
    using windowed_lookup_filters_and_projects [OF m t]
    by (simp add: targetRangeOf_def rangeMap_def getIncludedRanges_def rangeHierarchy_def)
qed

text \<open>
  C5: a company seen for a problem only under the label 180-days gets \<^verbatim>\<open>all-time\<close> as
  its last-seen window, and the claim has the query for the broadest window include
  it. The code drops it there: the unwindowed lookup shows the company, the lookup with
  the token \<^verbatim>\<open>all\<close> answers with no company, because the list for \<^verbatim>\<open>all-time\<close> names
  60-days where the fetcher's labels have 180-days.
\<close>

theorem six_months_only_dropped_by_all_query:
  "queryBySlug (buildProblemIndex newDataService sixMonthsOnly) ''two-sum'' None =
     Some (Clone
       \<lparr>p_problem = ''Two Sum'', p_slug = ''two-sum'',
        p_companies =
          [\<lparr>c_name = ''Acme'', c_frequency = 5, c_timeRanges = [''180-days''],
            c_last_seen = ''all-time''\<rparr>]\<rparr>)
   \<and> queryBySlug (buildProblemIndex newDataService sixMonthsOnly) ''two-sum'' (Some ''all'') =
     Some (Filtered \<lparr>f_problem = ''Two Sum'', f_slug = ''two-sum'', f_companies = []\<rparr>)"
  by code_simp

section \<open>Search: C6 and C10\<close>

text \<open>
  C6, as claimed: the query and the display title are comparison-normalized before the
  substring test. The code lower-cases and trims the query and only lower-cases the
  title: a query with two spaces between its words finds the problem under the
  specified search and nothing under \<^const>\<open>searchProblems\<close>.
\<close>

theorem search_differs_from_specified:
  "searchAsSpecified activeService ''two  sum'' 10 =
     [\<lparr>r_problem = ''Two Sum'', r_slug = ''two-sum'', r_companyCount = 2\<rparr>]
   \<and> searchProblems activeService ''two  sum'' 10 = []"
  by code_simp

lemma searchLoop_take:
  "int (length results) < limit \<Longrightarrow>
   searchLoop q limit entries results =
     take (nat limit) (results @ map searchResult (filter (matchesSearch q) entries))"
proof (induction entries arbitrary: results)
  case Nil
  then show ?case by simp
next
  case (Cons entry rest)
  show ?case
  proof (cases "matchesSearch q entry")
    case False
    with Cons show ?thesis by simp
  next
    case True
    show ?thesis
    proof (cases "int (length (results @ [searchResult entry])) \<ge> limit")
      case True
      with Cons.prems have "nat limit = Suc (length results)" by simp
      with \<open>matchesSearch q entry\<close> True show ?thesis by simp
    next
      case False
      then have "int (length (results @ [searchResult entry])) < limit" by simp
      from Cons.IH [OF this] False \<open>matchesSearch q entry\<close> show ?thesis by simp
    qed
  qed
qed

lemma searchLoop_no_match:
  "\<forall>entry \<in> set entries. \<not> matchesSearch q entry
     \<Longrightarrow> searchLoop q limit entries results = results"
  by (induction entries arbitrary: results) auto

text \<open>
  C6, amended: the search lower-cases and trims the query (whitespace runs inside it
  stay), scans the index in insertion order, and includes a problem exactly when that
  string occurs in the lower-cased display title or in the identity key. For a limit
  of at least 1 it returns the first \<open>limit\<close> matches; when nothing matches it returns
  the empty list, whatever the limit.
\<close>

theorem search_returns_first_matches:
  "(0 < limit \<longrightarrow>
      searchProblems ds query limit =
        take (nat limit)
          (map searchResult
            (filter (\<lambda>entry. includesStr (toLowerCase (p_problem (snd entry)))
                                (trim (toLowerCase query))
                             \<or> includesStr (fst entry) (trim (toLowerCase query)))
               (problemMap ds))))
   \<and> ((\<forall>entry \<in> set (problemMap ds).
          \<not> includesStr (toLowerCase (p_problem (snd entry))) (trim (toLowerCase query))
          \<and> \<not> includesStr (fst entry) (trim (toLowerCase query)))
        \<longrightarrow> searchProblems ds query limit = [])"
proof -
  have m: "matchesSearch (trim (toLowerCase query)) =
     (\<lambda>entry. includesStr (toLowerCase (p_problem (snd entry))) (trim (toLowerCase query))
               \<or> includesStr (fst entry) (trim (toLowerCase query)))"
    by (rule ext) (simp add: matchesSearch_def)
  have a: "0 < limit \<Longrightarrow> searchProblems ds query limit =
      take (nat limit)
        (map searchResult (filter (matchesSearch (trim (toLowerCase query))) (problemMap ds)))"
    using searchLoop_take [of "[]" limit] by (simp add: searchProblems_def)
  have b: "\<forall>entry \<in> set (problemMap ds). \<not> matchesSearch (trim (toLowerCase query)) entry
      \<Longrightarrow> searchProblems ds query limit = []"
    by (simp add: searchProblems_def searchLoop_no_match)
  from a b show ?thesis unfolding m by simp
qed

theorem search_returns_first_matches_witness:
  "searchProblems activeService '' SUM '' 10 =
     [\<lparr>r_problem = ''Two Sum'', r_slug = ''two-sum'', r_companyCount = 2\<rparr>]
   \<and> searchProblems activeService ''three'' 10 = []"
proof -
  have q1: "trim (toLowerCase '' SUM '') = ''sum''" by code_simp
  have q2: "trim (toLowerCase ''three'') = ''three''" by code_simp
  have l: "toLowerCase ''Two Sum'' = ''two sum''" by code_simp
  show ?thesis
    using search_returns_first_matches [of 10 activeService "'' SUM ''"]
      search_returns_first_matches [of 10 activeService "''three''"]
    by (simp add: q1 q2 l activeService_value searchResult_def)
qed

text \<open>
  C10: for an empty or whitespace-only query the claim promises the first
  \<open>min(limit, totalProblems)\<close> problems for any limit, which is none for a limit of 0
  or less. The loop tests the limit only after it has added a match, so with the limit
  0 (and with \<open>-5\<close>, which the route lets through) it returns one problem.
\<close>

theorem search_nonpositive_limit_returns_one:
  "searchProblems activeService '' '' 0 =
     [\<lparr>r_problem = ''Two Sum'', r_slug = ''two-sum'', r_companyCount = 2\<rparr>]
   \<and> searchProblems activeService [] (- 5) =
     [\<lparr>r_problem = ''Two Sum'', r_slug = ''two-sum'', r_companyCount = 2\<rparr>]"
  by code_simp

section \<open>The build: C7 and C9\<close>

subsection \<open>The loops fold the rows in order\<close>

lemma problemMap_processProblems:
  "b_problemMap (foldl (processProblem cn tr) st rs) = foldl (indexRecord cn tr) (b_problemMap st) rs"
  by (induction rs arbitrary: st) (simp_all add: processProblem_def)

lemma indexRows_append: "indexRows pm (xs @ ys) = indexRows (indexRows pm xs) ys"
  by (simp add: indexRows_def)

lemma indexRows_one_range:
  "foldl (indexRecord cn tr) pm rs = indexRows pm (map (\<lambda>r. (cn, tr, r)) rs)"
  by (induction rs arbitrary: pm) (simp_all add: indexRows_def)

lemma problemMap_processTimeRange:
  "b_problemMap (processTimeRange cn st e) =
     indexRows (b_problemMap st) (map (\<lambda>r. (cn, fst e, r)) (snd e))"
  by (simp add: processTimeRange_def problemMap_processProblems indexRows_one_range)

lemma problemMap_processTimeRanges:
  "b_problemMap (foldl (processTimeRange cn) st trs) =
     indexRows (b_problemMap st)
       (concat (map (\<lambda>(tr, rs). map (\<lambda>r. (cn, tr, r)) rs) trs))"
proof (induction trs arbitrary: st)
  case Nil
  show ?case by (simp add: indexRows_def)
next
  case (Cons e trs)
  have "b_problemMap (foldl (processTimeRange cn) st (e # trs)) =
      b_problemMap (foldl (processTimeRange cn) (processTimeRange cn st e) trs)"
    by simp
  also have "\<dots> = indexRows (b_problemMap (processTimeRange cn st e))
      (concat (map (\<lambda>(tr, rs). map (\<lambda>r. (cn, tr, r)) rs) trs))"
    by (rule Cons.IH)
  finally show ?case
    by (simp add: problemMap_processTimeRange indexRows_append split: prod.splits)
qed

lemma problemMap_processCompany:
  "b_problemMap (processCompany st e) =
     indexRows (b_problemMap st)
       (concat (map (\<lambda>(tr, rs). map (\<lambda>r. (fst e, tr, r)) rs) (snd e)))"
  by (simp add: processCompany_def problemMap_processTimeRanges)

lemma problemMap_processCompanies:
  "b_problemMap (foldl processCompany st pd) = indexRows (b_problemMap st) (allRecords pd)"
proof (induction pd arbitrary: st)
  case Nil
  show ?case by (simp add: indexRows_def allRecords_def)
next
  case (Cons e pd)
  have r: "allRecords (e # pd) =
      concat (map (\<lambda>(tr, rs). map (\<lambda>r. (fst e, tr, r)) rs) (snd e)) @ allRecords pd"
    by (simp add: allRecords_def split: prod.splits)
  have "b_problemMap (foldl processCompany st (e # pd)) =
      b_problemMap (foldl processCompany (processCompany st e) pd)"
    by simp
  also have "\<dots> = indexRows (b_problemMap (processCompany st e)) (allRecords pd)"
    by (rule Cons.IH)
  finally show ?case
    by (simp add: problemMap_processCompany r indexRows_append)
qed

lemma problemMap_buildLoop: "b_problemMap (buildLoop pd) = indexRows [] (allRecords pd)"
  by (simp add: buildLoop_def problemMap_processCompanies)


subsection \<open>What every row preserves\<close>

lemma mapSet_keys:
  "map fst (mapSet m k v) = (if k \<in> fst ` set m then map fst m else map fst m @ [k])"
  by (induction m k v rule: mapSet.induct) auto

lemma map_of_mapSet: "map_of (mapSet m k v) = (map_of m)(k \<mapsto> v)"
  by (induction m k v rule: mapSet.induct) (auto simp: fun_eq_iff)

lemma firstOccurrences_snoc:
  "firstOccurrences (xs @ [x]) =
     (if x \<in> set xs then firstOccurrences xs else firstOccurrences xs @ [x])"
  by (simp add: firstOccurrences_def)

lemma set_firstOccurrences: "set (firstOccurrences xs) = set xs"
  by (simp add: firstOccurrences_def)

lemma distinct_firstOccurrences: "distinct (firstOccurrences xs)"
  by (simp add: firstOccurrences_def)

lemma set_discoveryOrder:
  "set (discoveryOrder rows slug) =
     {cn. \<exists>tr r. (cn, tr, r) \<in> set rows \<and> titleToSlug (title r) = slug}"
  by (force simp: discoveryOrder_def set_firstOccurrences)

lemma discoveryOrder_snoc:
  "discoveryOrder (rows @ [(cn, tr, r)]) slug =
     (if titleToSlug (title r) = slug \<and> cn \<notin> set (discoveryOrder rows slug)
      then discoveryOrder rows slug @ [cn] else discoveryOrder rows slug)"
  by (simp add: discoveryOrder_def firstOccurrences_snoc set_firstOccurrences)

lemma discoveryOrder_Nil: "discoveryOrder [] slug = []"
  by (simp add: discoveryOrder_def firstOccurrences_def)

lemma reportedFrequencies_snoc:
  "reportedFrequencies (rows @ [(cn, tr, r)]) slug n =
     reportedFrequencies rows slug n \<union>
     (if cn = n \<and> titleToSlug (title r) = slug
      then {f. frequency r = Some f \<and> 0 < f} else {})"
  by (auto simp: reportedFrequencies_def)

lemma finite_reportedFrequencies: "finite (reportedFrequencies rows slug n)"
proof -
  have "reportedFrequencies rows slug n \<subseteq> (\<lambda>row. the (frequency (snd (snd row)))) ` set rows"
    by (force simp: reportedFrequencies_def)
  then show ?thesis by (rule finite_subset) simp
qed

lemma reportedFrequencies_undiscovered:
  "n \<notin> set (discoveryOrder rows slug) \<Longrightarrow> reportedFrequencies rows slug n = {}"
  by (auto simp: set_discoveryOrder reportedFrequencies_def)

lemma updateFirst_distinct:
  "distinct (map g xs) \<Longrightarrow>
   updateFirst (\<lambda>x. g x = k) f xs = map (\<lambda>x. if g x = k then f x else x) xs"
proof (induction xs)
  case Nil
  show ?case by simp
next
  case (Cons x xs)
  show ?case
  proof (cases "g x = k")
    case True
    with Cons.prems have "\<forall>y \<in> set xs. g y \<noteq> k" by (auto simp: image_iff)
    then have "map (\<lambda>x. if g x = k then f x else x) xs = xs"
      by (simp add: map_idI)
    with True show ?thesis by simp
  next
    case False
    with Cons show ?thesis by simp
  qed
qed

lemma c_name_updateEntry: "c_name (updateEntry tr r c) = c_name c"
  by (simp add: updateEntry_def Let_def split: option.splits)

lemma c_frequency_updateEntry:
  "c_frequency (updateEntry tr r c) =
     (case frequency r of None \<Rightarrow> c_frequency c
      | Some f \<Rightarrow> if f \<noteq> 0 then max (c_frequency c) f else c_frequency c)"
  by (simp add: updateEntry_def Let_def split: option.splits)

lemma touchCompany_map:
  assumes "distinct (map c_name cs)"
  shows "touchCompany cn tr r cs =
     map (\<lambda>c. if c_name c = cn then updateEntry tr r c else c)
       (if cn \<in> set (map c_name cs) then cs else cs @ [newEntry cn])"
proof -
  have e: "list_ex (\<lambda>c. c_name c = cn) cs \<longleftrightarrow> cn \<in> set (map c_name cs)"
    by (auto simp: list_ex_iff)
  have d: "distinct (map c_name (if cn \<in> set (map c_name cs) then cs else cs @ [newEntry cn]))"
    using assms by (auto simp: newEntry_def)
  show ?thesis
    unfolding touchCompany_def Let_def e
    by (rule updateFirst_distinct [OF d])
qed

lemma names_touchCompany:
  assumes "distinct (map c_name cs)"
  shows "map c_name (touchCompany cn tr r cs) =
     (if cn \<in> set (map c_name cs) then map c_name cs else map c_name cs @ [cn])"
  by (simp add: touchCompany_map [OF assms] c_name_updateEntry newEntry_def comp_def
      cong: map_cong)


lemma indexed_Nil: "indexed [] []"
  by (simp add: indexed_def)

lemma Max_reported_snoc:
  assumes "titleToSlug (title r) = slug"
  shows "Max (insert 0 (reportedFrequencies (rows @ [(cn, tr, r)]) slug cn)) =
     (case frequency r of
        None \<Rightarrow> Max (insert 0 (reportedFrequencies rows slug cn))
      | Some f \<Rightarrow> if f \<noteq> 0 then max (Max (insert 0 (reportedFrequencies rows slug cn))) f
                  else Max (insert 0 (reportedFrequencies rows slug cn)))"
proof (cases "frequency r")
  case None
  then show ?thesis by (simp add: reportedFrequencies_snoc assms)
next
  case (Some f)
  let ?A = "insert 0 (reportedFrequencies rows slug cn)"
  have fin: "finite ?A" by (simp add: finite_reportedFrequencies)
  have nonneg: "0 \<le> Max ?A" using fin by (simp add: Max_ge)
  show ?thesis
  proof (cases "0 < f")
    case True
    then have "{g. frequency r = Some g \<and> 0 < g} = {f}" using Some by auto
    then have "insert 0 (reportedFrequencies (rows @ [(cn, tr, r)]) slug cn) = insert f ?A"
      by (simp add: reportedFrequencies_snoc assms insert_commute)
    moreover have "Max (insert f ?A) = max f (Max ?A)"
      by (rule Max_insert) (simp_all add: finite_reportedFrequencies)
    ultimately show ?thesis using Some True by (simp add: max.commute)
  next
    case False
    then have e: "{g. frequency r = Some g \<and> 0 < g} = {}" using Some by auto
    have "insert 0 (reportedFrequencies (rows @ [(cn, tr, r)]) slug cn) = ?A"
      by (simp only: reportedFrequencies_snoc assms e simp_thms if_True Un_empty_right)
    with Some False nonneg show ?thesis by (simp add: max_def)
  qed
qed


lemma indexed_step:
  assumes inv: "indexed rows pm"
  shows "indexed (rows @ [(cn, tr, r)]) (indexRecord cn tr pm r)"
proof -
  let ?sl = "titleToSlug (title r)"
  let ?rows = "rows @ [(cn, tr, r)]"
  let ?old = "case map_of pm ?sl of Some d \<Rightarrow> d
             | None \<Rightarrow> \<lparr>p_problem = title r, p_slug = ?sl, p_companies = []\<rparr>"
  let ?comps = "touchCompany cn tr r (p_companies ?old)"
  let ?new = "?old\<lparr>p_companies := ?comps\<rparr>"
  have step: "indexRecord cn tr pm r = mapSet pm ?sl ?new"
    by (simp add: indexRecord_def Let_def)
  from inv have dist: "distinct (map fst pm)"
    and keys: "fst ` set pm = rowSlug ` set rows"
    and good: "\<And>slug d. map_of pm slug = Some d \<Longrightarrow>
           p_slug d = slug
           \<and> map c_name (p_companies d) = discoveryOrder rows slug
           \<and> (\<forall>c \<in> set (p_companies d).
                 c_frequency c = Max (insert 0 (reportedFrequencies rows slug (c_name c))))"
    by (auto simp: indexed_def)
  have d0: "p_slug ?old = ?sl
      \<and> map c_name (p_companies ?old) = discoveryOrder rows ?sl
      \<and> (\<forall>c \<in> set (p_companies ?old).
            c_frequency c = Max (insert 0 (reportedFrequencies rows ?sl (c_name c))))"
  proof (cases "map_of pm ?sl")
    case (Some d)
    with good [OF Some] show ?thesis by simp
  next
    case None
    then have "?sl \<notin> fst ` set pm" by (simp add: map_of_eq_None_iff)
    with keys have "?sl \<notin> rowSlug ` set rows" by simp
    have "n \<notin> set (discoveryOrder rows ?sl)" for n
    proof
      assume "n \<in> set (discoveryOrder rows ?sl)"
      then obtain tr' r' where "(n, tr', r') \<in> set rows" and "titleToSlug (title r') = ?sl"
        by (auto simp: set_discoveryOrder)
      then have "rowSlug (n, tr', r') = ?sl" and "(n, tr', r') \<in> set rows"
        by (simp_all add: rowSlug_def)
      then have "?sl \<in> rowSlug ` set rows" by (metis image_eqI)
      with \<open>?sl \<notin> rowSlug ` set rows\<close> show False by simp
    qed
    then have "discoveryOrder rows ?sl = []"
      by (cases "discoveryOrder rows ?sl") (simp, metis list.set_intros(1))
    with None show ?thesis by simp
  qed
  then have names0: "map c_name (p_companies ?old) = discoveryOrder rows ?sl" by blast
  have dist0: "distinct (map c_name (p_companies ?old))"
    unfolding names0 by (simp add: discoveryOrder_def distinct_firstOccurrences)
  have names: "map c_name ?comps = discoveryOrder ?rows ?sl"
    by (simp add: names_touchCompany [OF dist0] names0 discoveryOrder_snoc)
  have freqs: "c_frequency c = Max (insert 0 (reportedFrequencies ?rows ?sl (c_name c)))"
    if c: "c \<in> set ?comps" for c
  proof -
    let ?base = "if cn \<in> set (map c_name (p_companies ?old)) then p_companies ?old
                 else p_companies ?old @ [newEntry cn]"
    from c obtain c0 where c0: "c0 \<in> set ?base"
      and cc: "c = (if c_name c0 = cn then updateEntry tr r c0 else c0)"
      unfolding touchCompany_map [OF dist0] by auto
    have old: "c_frequency c0 = Max (insert 0 (reportedFrequencies rows ?sl (c_name c0)))"
    proof (cases "c0 \<in> set (p_companies ?old)")
      case True
      with d0 show ?thesis by blast
    next
      case False
      with c0 have n: "c0 = newEntry cn" and "cn \<notin> set (map c_name (p_companies ?old))"
        by (auto split: if_splits)
      then have "cn \<notin> set (discoveryOrder rows ?sl)" using names0 by simp
      then have "reportedFrequencies rows ?sl cn = {}"
        by (rule reportedFrequencies_undiscovered)
      with n show ?thesis by (simp add: newEntry_def)
    qed
    show ?thesis
    proof (cases "c_name c0 = cn")
      case True
      with cc have "c = updateEntry tr r c0" by simp
      with True old show ?thesis
        by (simp add: c_frequency_updateEntry c_name_updateEntry Max_reported_snoc
            split: option.splits)
    next
      case False
      with cc have "c = c0" by simp
      with False old show ?thesis by (simp add: reportedFrequencies_snoc)
    qed
  qed
  have dist': "distinct (map fst (indexRecord cn tr pm r))"
    using dist by (auto simp: step mapSet_keys)
  have keys': "fst ` set (indexRecord cn tr pm r) = rowSlug ` set ?rows"
  proof -
    have "fst ` set (indexRecord cn tr pm r) = set (map fst (indexRecord cn tr pm r))" by simp
    also have "\<dots> = insert ?sl (fst ` set pm)"
      unfolding step mapSet_keys by auto
    also have "\<dots> = rowSlug ` set ?rows"
      using keys by (simp add: rowSlug_def)
    finally show ?thesis .
  qed
  have good': "p_slug d = slug
           \<and> map c_name (p_companies d) = discoveryOrder ?rows slug
           \<and> (\<forall>c \<in> set (p_companies d).
                 c_frequency c = Max (insert 0 (reportedFrequencies ?rows slug (c_name c))))"
    if m: "map_of (indexRecord cn tr pm r) slug = Some d" for slug d
  proof (cases "slug = ?sl")
    case True
    with m have "d = ?new" by (simp add: step map_of_mapSet)
    with True d0 names freqs show ?thesis by simp
  next
    case False
    with m have "map_of pm slug = Some d" by (simp add: step map_of_mapSet)
    from good [OF this] False show ?thesis
      by (simp add: discoveryOrder_snoc reportedFrequencies_snoc)
  qed
  from dist' keys' good' show ?thesis
    unfolding indexed_def by blast
qed

lemma indexed_indexRows: "indexed rows (indexRows [] rows)"
proof (induction rows rule: rev_induct)
  case Nil
  show ?case by (simp add: indexRows_def indexed_Nil)
next
  case (snoc row rows)
  obtain cn tr r where row: "row = (cn, tr, r)" by (cases row) auto
  have "indexRows [] (rows @ [row]) = indexRecord cn tr (indexRows [] rows) r"
    by (simp add: indexRows_def row)
  with indexed_step [OF snoc.IH, of cn tr r] row show ?case by simp
qed


subsection \<open>After the build\<close>

lemma built_entry:
  assumes "(slug, d) \<in> set (problemMap (buildProblemIndex ds parsedData))"
  obtains pre where "p_companies d = sortCompanies pre"
    and "map c_name pre = discoveryOrder (allRecords parsedData) slug"
    and "\<forall>c \<in> set pre.
           c_frequency c = Max (insert 0 (reportedFrequencies (allRecords parsedData) slug (c_name c)))"
proof -
  let ?pm = "indexRows [] (allRecords parsedData)"
  have inv: "indexed (allRecords parsedData) ?pm" by (rule indexed_indexRows)
  from assms have "(slug, d) \<in> set (sortAll ?pm)"
    by (simp add: buildProblemIndex_def Let_def problemMap_buildLoop)
  then obtain d0 where in0: "(slug, d0) \<in> set ?pm"
    and d: "d = d0\<lparr>p_companies := sortCompanies (p_companies d0)\<rparr>"
    by (auto simp: sortAll_def)
  from inv have "distinct (map fst ?pm)" by (simp add: indexed_def)
  then have "map_of ?pm slug = Some d0" using in0 by (rule map_of_is_SomeI)
  with inv have "map c_name (p_companies d0) = discoveryOrder (allRecords parsedData) slug"
    and "\<forall>c \<in> set (p_companies d0).
           c_frequency c = Max (insert 0 (reportedFrequencies (allRecords parsedData) slug (c_name c)))"
    by (simp_all add: indexed_def)
  with d that [of "p_companies d0"] show thesis by simp
qed

lemma updateFirst_mem:
  "x \<in> set xs \<Longrightarrow> x \<in> set (updateFirst P f xs) \<or> f x \<in> set (updateFirst P f xs)"
  by (induction xs) auto

lemma touchCompany_keeps:
  assumes "c \<in> set cs"
  shows "\<exists>c' \<in> set (touchCompany cn tr r cs).
           c_name c' = c_name c \<and> c_frequency c \<le> c_frequency c'"
proof -
  let ?base = "if list_ex (\<lambda>c. c_name c = cn) cs then cs else cs @ [newEntry cn]"
  from assms have "c \<in> set ?base" by simp
  then have "c \<in> set (touchCompany cn tr r cs) \<or> updateEntry tr r c \<in> set (touchCompany cn tr r cs)"
    unfolding touchCompany_def Let_def by (rule updateFirst_mem)
  then show ?thesis
  proof
    assume "c \<in> set (touchCompany cn tr r cs)"
    then show ?thesis by auto
  next
    assume "updateEntry tr r c \<in> set (touchCompany cn tr r cs)"
    moreover have "c_frequency c \<le> c_frequency (updateEntry tr r c)"
      by (simp add: c_frequency_updateEntry split: option.splits)
    ultimately show ?thesis using c_name_updateEntry by blast
  qed
qed

lemma mapSet_mem:
  "(k', v') \<in> set m \<Longrightarrow> (k', v') \<in> set (mapSet m k v) \<or> (k' = k \<and> map_of m k = Some v')"
  by (induction m k v rule: mapSet.induct) auto

lemma mapSet_new: "(k, v) \<in> set (mapSet m k v)"
  by (induction m k v rule: mapSet.induct) auto

lemma indexRecord_keeps:
  assumes "(slug, d) \<in> set pm" and "c \<in> set (p_companies d)"
  shows "\<exists>d' c'. (slug, d') \<in> set (indexRecord cn tr pm r) \<and> c' \<in> set (p_companies d')
           \<and> c_name c' = c_name c \<and> c_frequency c \<le> c_frequency c'"
proof -
  let ?sl = "titleToSlug (title r)"
  let ?old = "case map_of pm ?sl of Some d \<Rightarrow> d
             | None \<Rightarrow> \<lparr>p_problem = title r, p_slug = ?sl, p_companies = []\<rparr>"
  let ?new = "?old\<lparr>p_companies := touchCompany cn tr r (p_companies ?old)\<rparr>"
  have step: "indexRecord cn tr pm r = mapSet pm ?sl ?new"
    by (simp add: indexRecord_def Let_def)
  from mapSet_mem [OF assms(1), of ?sl ?new]
  show ?thesis
  proof
    assume "(slug, d) \<in> set (mapSet pm ?sl ?new)"
    with assms(2) show ?thesis unfolding step by blast
  next
    assume a: "slug = ?sl \<and> map_of pm ?sl = Some d"
    then have "p_companies ?new = touchCompany cn tr r (p_companies d)" by simp
    with touchCompany_keeps [OF assms(2), of cn tr r]
    obtain c' where "c' \<in> set (p_companies ?new)" and "c_name c' = c_name c"
      and "c_frequency c \<le> c_frequency c'" by auto
    moreover have "(slug, ?new) \<in> set (indexRecord cn tr pm r)"
      unfolding step using a mapSet_new [of ?sl ?new pm] by simp
    ultimately show ?thesis by blast
  qed
qed

text \<open>
  C7: after the build, the frequency of a company on a problem is the maximum of the
  positive frequencies reported in the rows of that problem and company, and 0 when
  there is none; the rows enter only as a set, so their order does not matter. Folding
  one more row into a problem map keeps every company of every problem and lowers no
  frequency; on the entry it touches it never lowers the frequency, and a row whose
  frequency is absent or 0 leaves it as it is.
\<close>

theorem max_frequency_is_maximum:
  "((slug, d) \<in> set (problemMap (buildProblemIndex ds parsedData)) \<and> c \<in> set (p_companies d) \<longrightarrow>
      (reportedFrequencies (allRecords parsedData) slug (c_name c) = {} \<longrightarrow> c_frequency c = 0)
      \<and> (reportedFrequencies (allRecords parsedData) slug (c_name c) \<noteq> {} \<longrightarrow>
           c_frequency c = Max (reportedFrequencies (allRecords parsedData) slug (c_name c))))
   \<and> ((slug0, d0) \<in> set pm \<and> c0 \<in> set (p_companies d0) \<longrightarrow>
        (\<exists>d1 c1. (slug0, d1) \<in> set (indexRecord companyName timeRange pm problem)
           \<and> c1 \<in> set (p_companies d1)
           \<and> c_name c1 = c_name c0 \<and> c_frequency c0 \<le> c_frequency c1))
   \<and> c_frequency e \<le> c_frequency (updateEntry timeRange problem e)
   \<and> (frequency problem = None \<or> frequency problem = Some 0 \<longrightarrow>
         c_frequency (updateEntry timeRange problem e) = c_frequency e)"
proof -
  let ?S = "reportedFrequencies (allRecords parsedData) slug (c_name c)"
  have fin: "finite ?S" by (rule finite_reportedFrequencies)
  have f: "c_frequency c = Max (insert 0 ?S)"
    if "(slug, d) \<in> set (problemMap (buildProblemIndex ds parsedData))"
      and "c \<in> set (p_companies d)"
  proof -
    from that(1) obtain pre where "p_companies d = sortCompanies pre"
      and "\<forall>c \<in> set pre.
           c_frequency c = Max (insert 0 (reportedFrequencies (allRecords parsedData) slug (c_name c)))"
      by (rule built_entry)
    with that(2) show ?thesis by (simp add: sortCompanies_def)
  qed
  have m: "Max (insert 0 ?S) = Max ?S" if ne: "?S \<noteq> {}"
  proof -
    have "Max ?S \<in> ?S" using fin ne by (rule Max_in)
    moreover have "\<forall>f \<in> ?S. 0 < f" by (auto simp: reportedFrequencies_def)
    ultimately have "0 < Max ?S" by blast
    moreover have "Max (insert 0 ?S) = max 0 (Max ?S)" using fin ne by (rule Max_insert)
    ultimately show ?thesis by simp
  qed
  have a: "(slug, d) \<in> set (problemMap (buildProblemIndex ds parsedData)) \<and> c \<in> set (p_companies d) \<longrightarrow>
      (?S = {} \<longrightarrow> c_frequency c = 0) \<and> (?S \<noteq> {} \<longrightarrow> c_frequency c = Max ?S)"
    using f m by auto
  have b: "(slug0, d0) \<in> set pm \<and> c0 \<in> set (p_companies d0) \<longrightarrow>
        (\<exists>d1 c1. (slug0, d1) \<in> set (indexRecord companyName timeRange pm problem)
           \<and> c1 \<in> set (p_companies d1)
           \<and> c_name c1 = c_name c0 \<and> c_frequency c0 \<le> c_frequency c1)"
    using indexRecord_keeps by blast
  have c: "c_frequency e \<le> c_frequency (updateEntry timeRange problem e)"
    by (simp add: c_frequency_updateEntry split: option.splits)
  have d: "frequency problem = None \<or> frequency problem = Some 0 \<longrightarrow>
         c_frequency (updateEntry timeRange problem e) = c_frequency e"
    by (auto simp: c_frequency_updateEntry)
  from a b c d show ?thesis by blast
qed

theorem max_frequency_is_maximum_witness:
  "(''two-sum'',
     \<lparr>p_problem = ''Two Sum'', p_slug = ''two-sum'',
      p_companies =
        [\<lparr>c_name = ''Acme'', c_frequency = 5, c_timeRanges = [''30-days''],
          c_last_seen = ''30-days''\<rparr>,
         \<lparr>c_name = ''Beta'', c_frequency = 2, c_timeRanges = [''90-days''],
          c_last_seen = ''90-days''\<rparr>]\<rparr>)
     \<in> set (problemMap (buildProblemIndex newDataService scenario))
   \<and> reportedFrequencies (allRecords scenario) ''two-sum'' ''Acme'' = {5}
   \<and> Max (reportedFrequencies (allRecords scenario) ''two-sum'' ''Acme'') = 5
   \<and> (\<exists>d1 c1. (''two-sum'', d1) \<in> set (indexRecord ''Beta'' ''30-days'' (problemMap activeService)
                                            \<lparr>title = ''Two Sum'', frequency = Some 1\<rparr>)
         \<and> c1 \<in> set (p_companies d1) \<and> c_name c1 = ''Beta'' \<and> 2 \<le> c_frequency c1)"
proof -
  let ?acme = "\<lparr>c_name = ''Acme'', c_frequency = 5, c_timeRanges = [''30-days''],
          c_last_seen = ''30-days''\<rparr>"
  let ?beta = "\<lparr>c_name = ''Beta'', c_frequency = 2, c_timeRanges = [''90-days''],
          c_last_seen = ''90-days''\<rparr>"
  let ?p = "\<lparr>p_problem = ''Two Sum'', p_slug = ''two-sum'', p_companies = [?acme, ?beta]\<rparr>"
  have h1: "(''two-sum'', ?p) \<in> set (problemMap (buildProblemIndex newDataService scenario))"
    using activeService_value by (simp add: activeService_def)
  have h2: "?acme \<in> set (p_companies ?p)" by simp
  have h3: "(''two-sum'', ?p) \<in> set (problemMap activeService)"
    by (simp add: activeService_value)
  have h4: "?beta \<in> set (p_companies ?p)" by simp
  have r: "reportedFrequencies (allRecords scenario) ''two-sum'' ''Acme'' = {5}"
    by (auto simp: reportedFrequencies_def allRecords_scenario slug_examples)
  from max_frequency_is_maximum
         [of "''two-sum''" ?p newDataService scenario ?acme
             "''two-sum''" ?p "problemMap activeService" ?beta
             "''Beta''" "''30-days''" "\<lparr>title = ''Two Sum'', frequency = Some 1\<rparr>"]
    h1 h2 h3 h4 r
  show ?thesis by simp
qed

text \<open>
  C9: after the build, the companies of every problem are in descending order of
  frequency, and companies with the same frequency stand in discovery order: for every
  frequency, the names of the companies that have it, read off the sorted list, are a
  subsequence of the discovery order. The sorted list holds every discovered company
  once.
\<close>

theorem companies_sorted_stably:
  assumes "(slug, d) \<in> set (problemMap (buildProblemIndex ds parsedData))"
  shows "sorted_wrt (\<lambda>a b. c_frequency b \<le> c_frequency a) (p_companies d)
    \<and> (\<forall>k. subseq (map c_name (filter (\<lambda>c. c_frequency c = k) (p_companies d)))
               (discoveryOrder (allRecords parsedData) slug))
    \<and> distinct (map c_name (p_companies d))
    \<and> set (map c_name (p_companies d)) = set (discoveryOrder (allRecords parsedData) slug)"
proof -
  from assms obtain pre where cs: "p_companies d = sortCompanies pre"
    and names: "map c_name pre = discoveryOrder (allRecords parsedData) slug"
    by (rule built_entry)
  have "sorted (map (\<lambda>c. - c_frequency c) (p_companies d))"
    by (simp add: cs sortCompanies_def)
  then have a: "sorted_wrt (\<lambda>a b. c_frequency b \<le> c_frequency a) (p_companies d)"
    by (simp add: sorted_map)
  have b: "subseq (map c_name (filter (\<lambda>c. c_frequency c = k) (p_companies d)))
               (discoveryOrder (allRecords parsedData) slug)" for k
  proof -
    have "filter (\<lambda>c. c_frequency c = k) (p_companies d) =
        filter (\<lambda>c. - c_frequency c = - k) (sort_key (\<lambda>c. - c_frequency c) pre)"
      by (simp add: cs sortCompanies_def)
    also have "\<dots> = filter (\<lambda>c. - c_frequency c = - k) pre"
      by (rule sort_key_stable)
    finally have "subseq (filter (\<lambda>c. c_frequency c = k) (p_companies d)) pre"
      by simp
    then have "subseq (map c_name (filter (\<lambda>c. c_frequency c = k) (p_companies d))) (map c_name pre)"
      by (rule subseq_map)
    then show ?thesis by (simp add: names)
  qed
  have "mset (p_companies d) = mset pre"
    by (simp add: cs sortCompanies_def)
  then have "mset (map c_name (p_companies d)) = mset (map c_name pre)"
    by simp
  then have c: "distinct (map c_name (p_companies d)) = distinct (map c_name pre)"
    and s: "set (map c_name (p_companies d)) = set (map c_name pre)"
    by (metis mset_eq_imp_distinct_iff, metis mset_eq_setD)
  have "distinct (map c_name pre)"
    by (simp add: names discoveryOrder_def distinct_firstOccurrences)
  with a b c s names show ?thesis by simp
qed


lemma tieScenario_value:
  "problemMap (buildProblemIndex newDataService tieScenario) =
     [(''two-sum'',
       \<lparr>p_problem = ''Two Sum'', p_slug = ''two-sum'',
        p_companies =
          [\<lparr>c_name = ''Beta'', c_frequency = 7, c_timeRanges = [''30-days''],
            c_last_seen = ''30-days''\<rparr>,
           \<lparr>c_name = ''Acme'', c_frequency = 3, c_timeRanges = [''30-days''],
            c_last_seen = ''30-days''\<rparr>,
           \<lparr>c_name = ''Cato'', c_frequency = 3, c_timeRanges = [''90-days'', ''all-time''],
            c_last_seen = ''90-days''\<rparr>]\<rparr>)]"
  by code_simp

theorem companies_sorted_stably_witness:
  "(''two-sum'',
     \<lparr>p_problem = ''Two Sum'', p_slug = ''two-sum'',
      p_companies =
        [\<lparr>c_name = ''Beta'', c_frequency = 7, c_timeRanges = [''30-days''],
          c_last_seen = ''30-days''\<rparr>,
         \<lparr>c_name = ''Acme'', c_frequency = 3, c_timeRanges = [''30-days''],
          c_last_seen = ''30-days''\<rparr>,
         \<lparr>c_name = ''Cato'', c_frequency = 3, c_timeRanges = [''90-days'', ''all-time''],
          c_last_seen = ''90-days''\<rparr>]\<rparr>)
     \<in> set (problemMap (buildProblemIndex newDataService tieScenario))
   \<and> subseq [''Acme'', ''Cato''] (discoveryOrder (allRecords tieScenario) ''two-sum'')
   \<and> set (discoveryOrder (allRecords tieScenario) ''two-sum'') = {''Acme'', ''Beta'', ''Cato''}"
proof -
  let ?beta = "\<lparr>c_name = ''Beta'', c_frequency = 7, c_timeRanges = [''30-days''],
          c_last_seen = ''30-days''\<rparr>"
  let ?acme = "\<lparr>c_name = ''Acme'', c_frequency = 3, c_timeRanges = [''30-days''],
          c_last_seen = ''30-days''\<rparr>"
  let ?cato = "\<lparr>c_name = ''Cato'', c_frequency = 3, c_timeRanges = [''90-days'', ''all-time''],
          c_last_seen = ''90-days''\<rparr>"
  let ?p = "\<lparr>p_problem = ''Two Sum'', p_slug = ''two-sum'',
             p_companies = [?beta, ?acme, ?cato]\<rparr>"
  have h: "(''two-sum'', ?p) \<in> set (problemMap (buildProblemIndex newDataService tieScenario))"
    by (simp add: tieScenario_value)
  from companies_sorted_stably [OF h]
  have "\<forall>k. subseq (map c_name (filter (\<lambda>c. c_frequency c = k) (p_companies ?p)))
               (discoveryOrder (allRecords tieScenario) ''two-sum'')"
    and s: "set (map c_name (p_companies ?p)) = set (discoveryOrder (allRecords tieScenario) ''two-sum'')"
    by blast+
  then have "subseq (map c_name (filter (\<lambda>c. c_frequency c = 3) (p_companies ?p)))
               (discoveryOrder (allRecords tieScenario) ''two-sum'')"
    by blast
  then have "subseq [''Acme'', ''Cato''] (discoveryOrder (allRecords tieScenario) ''two-sum'')"
    by simp
  with h s show ?thesis by auto
qed

section \<open>Identity keys: C4\<close>

text \<open>
  C4, as claimed: titles that differ only in punctuation have the same identity key.
  The hyphen and the underscore are punctuation, and \<^const>\<open>titleToSlug\<close> keeps both:
  with the punctuation deleted the two titles of each pair below are the same string,
  and their keys differ.
\<close>

theorem slug_keeps_hyphen_and_underscore:
  "filter (\<lambda>c. \<not> isPunctuation c) ''Two-Sum'' = filter (\<lambda>c. \<not> isPunctuation c) ''TwoSum''
   \<and> titleToSlug ''Two-Sum'' = ''two-sum'' \<and> titleToSlug ''TwoSum'' = ''twosum''
   \<and> filter (\<lambda>c. \<not> isPunctuation c) ''two_sum'' = filter (\<lambda>c. \<not> isPunctuation c) ''twosum''
   \<and> titleToSlug ''two_sum'' = ''two_sum'' \<and> titleToSlug ''twosum'' = ''twosum''"
  by code_simp

subsection \<open>Replacing runs, from either end\<close>

lemma replaceRuns_snoc:
  "replaceRuns P [r] (s @ [c]) =
     (if P c then (if s \<noteq> [] \<and> P (last s) then replaceRuns P [r] s else replaceRuns P [r] s @ [r])
      else replaceRuns P [r] s @ [c])"
proof (induction P "[r]" s rule: replaceRuns.induct)
  case (1 P)
  show ?case by simp
next
  case (2 P d ds)
  show ?case
  proof (cases "P d")
    case False
    with 2 show ?thesis by auto
  next
    case True
    note Pd = True
    show ?thesis
    proof (cases "\<forall>x \<in> set ds. P x")
      case True
      then have dw: "dropWhile P ds = []" and dw2: "dropWhile P (ds @ [c]) = dropWhile P [c]"
        by simp_all
      have l: "P (last (d # ds))" using True Pd by (cases ds rule: rev_cases) auto
      have "replaceRuns P [r] ((d # ds) @ [c]) = r # replaceRuns P [r] (dropWhile P [c])"
        using Pd by (simp add: dw2)
      moreover have "replaceRuns P [r] (d # ds) = [r]"
        using Pd by (simp add: dw)
      ultimately show ?thesis using l by simp
    next
      case False
      then have dw2: "dropWhile P (ds @ [c]) = dropWhile P ds @ [c]"
        by (auto simp: dropWhile_append1)
      from False have ne: "dropWhile P ds \<noteq> []" by (auto simp: dropWhile_eq_Nil_conv)
      have l: "last (dropWhile P ds) = last ds" using ne
        by (metis last_appendR takeWhile_dropWhile_id)
      from False have ds: "ds \<noteq> []" by auto
      have "replaceRuns P [r] ((d # ds) @ [c]) = r # replaceRuns P [r] (dropWhile P ds @ [c])"
        using Pd by (simp add: dw2)
      also have "\<dots> = r # (if P c then (if P (last ds) then replaceRuns P [r] (dropWhile P ds)
            else replaceRuns P [r] (dropWhile P ds) @ [r])
          else replaceRuns P [r] (dropWhile P ds) @ [c])"
        using 2(1) [OF Pd] ne l by simp
      finally show ?thesis using Pd ds by simp
    qed
  qed
qed

lemma replaceRuns_rev: "replaceRuns P [r] (rev s) = rev (replaceRuns P [r] s)"
proof (induction s)
  case Nil
  show ?case by simp
next
  case (Cons c cs)
  have "replaceRuns P [r] (rev (c # cs)) = replaceRuns P [r] (rev cs @ [c])" by simp
  also have "\<dots> = (if P c then (if rev cs \<noteq> [] \<and> P (last (rev cs)) then replaceRuns P [r] (rev cs)
        else replaceRuns P [r] (rev cs) @ [r])
      else replaceRuns P [r] (rev cs) @ [c])"
    by (rule replaceRuns_snoc)
  also have "\<dots> = (if P c then (if cs \<noteq> [] \<and> P (hd cs) then rev (replaceRuns P [r] cs)
        else rev (replaceRuns P [r] cs) @ [r])
      else rev (replaceRuns P [r] cs) @ [c])"
    by (simp add: Cons.IH last_rev)
  also have "\<dots> = rev (replaceRuns P [r] (c # cs))"
    by (cases cs) auto
  finally show ?case .
qed


lemma titleToSlug_slugTail:
  "titleToSlug t = slugTail (removeSpecial (trim (toLowerCase t)))"
  by (simp add: titleToSlug_def slugTail_def toLowerCase_def trim_def trimStart_def trimEnd_def
      removeSpecial_def stripHyphens_def)

lemma stripHyphens_rev: "stripHyphens (rev s) = rev (stripHyphens s)"
proof (cases s)
  case Nil
  then show ?thesis by (simp add: stripHyphens_def)
next
  case (Cons c cs)
  show ?thesis
  proof (cases cs rule: rev_cases)
    case Nil
    with Cons show ?thesis by (simp add: stripHyphens_def)
  next
    case (snoc ds d)
    with Cons show ?thesis
      by (cases ds) (auto simp: stripHyphens_def Let_def butlast_append split: list.splits)
  qed
qed

lemma slugTail_rev: "slugTail (rev s) = rev (slugTail s)"
  by (simp add: slugTail_def replaceRuns_rev stripHyphens_rev)

lemma replaceRuns_hyphen_Cons:
  "replaceRuns isHyphen ''-'' (CHR ''-'' # w) =
     CHR ''-'' # replaceRuns isHyphen ''-'' (dropWhile isHyphen w)"
  by (simp add: isHyphen_def)

lemma stripHyphens_leading:
  "stripHyphens (CHR ''-'' # replaceRuns isHyphen ''-'' (dropWhile isHyphen w)) =
     stripHyphens (replaceRuns isHyphen ''-'' w)"
proof (cases w)
  case Nil
  then show ?thesis by (simp add: stripHyphens_def isHyphen_def)
next
  case (Cons a w')
  show ?thesis
  proof (cases "isHyphen a")
    case True
    with Cons show ?thesis by (simp add: isHyphen_def)
  next
    case False
    with Cons show ?thesis by (simp add: stripHyphens_def isHyphen_def)
  qed
qed

lemma slugTail_trimStart: "slugTail (trimStart s) = slugTail s"
proof (cases s)
  case Nil
  then show ?thesis by (simp add: trimStart_def)
next
  case (Cons c cs)
  show ?thesis
  proof (cases "isSpace c")
    case False
    with Cons show ?thesis by (simp add: trimStart_def)
  next
    case True
    with Cons have "slugTail s =
        stripHyphens (replaceRuns isHyphen ''-''
          (CHR ''-'' # replaceRuns isSpace ''-'' (dropWhile isSpace cs)))"
      by (simp add: slugTail_def)
    also have "\<dots> = stripHyphens (replaceRuns isHyphen ''-''
          (replaceRuns isSpace ''-'' (dropWhile isSpace cs)))"
      by (simp only: replaceRuns_hyphen_Cons stripHyphens_leading)
    also have "\<dots> = slugTail (trimStart s)"
      using True Cons by (simp add: slugTail_def trimStart_def)
    finally show ?thesis by simp
  qed
qed

lemma trimEnd_rev: "trimEnd s = rev (trimStart (rev s))"
  by (simp add: trimEnd_def trimStart_def)

lemma slugTail_trimEnd: "slugTail (trimEnd s) = slugTail s"
proof -
  have "slugTail (trimEnd s) = rev (slugTail (trimStart (rev s)))"
    by (simp add: trimEnd_rev slugTail_rev)
  also have "\<dots> = rev (slugTail (rev s))" by (simp add: slugTail_trimStart)
  also have "\<dots> = slugTail s" by (simp add: slugTail_rev)
  finally show ?thesis .
qed

lemma slugTail_trim: "slugTail (trim s) = slugTail s"
  by (simp add: trim_def slugTail_trimEnd slugTail_trimStart)


lemma dropWhile_replaceRuns_dropWhile:
  "dropWhile P (replaceRuns P r (dropWhile P s)) = replaceRuns P r (dropWhile P s)"
proof (cases "dropWhile P s")
  case Nil
  show ?thesis by (simp only: Nil replaceRuns.simps dropWhile.simps)
next
  case (Cons a z)
  then have "\<not> P a" by (metis hd_dropWhile list.sel(1) list.distinct(1))
  then show ?thesis by (simp only: Cons) simp
qed

lemma replaceRuns_space_collapsed:
  "replaceRuns isSpace ''-'' (replaceRuns isSpace '' '' s) = replaceRuns isSpace ''-'' s"
proof (induction isSpace "'' ''" s rule: replaceRuns.induct)
  case 1
  show ?case by simp
next
  case (2 c cs)
  have sp: "isSpace CHR '' ''" by (simp add: isSpace_def)
  show ?case
  proof (cases "isSpace c")
    case False
    with 2 show ?thesis by simp
  next
    case True
    with 2(1) sp show ?thesis
      by (simp add: dropWhile_replaceRuns_dropWhile)
  qed
qed

lemma slugTail_collapsed: "slugTail (replaceRuns isSpace '' '' s) = slugTail s"
  by (simp add: slugTail_def replaceRuns_space_collapsed)

lemma removeSpecial_leading:
  "removeSpecial s = takeWhile isSpace s @ removeSpecial (dropWhile isSpace s)"
  by (induction s) (auto simp: removeSpecial_def keptInSlug_def)

lemma trimStart_removeSpecial: "trimStart (removeSpecial (trimStart s)) = trimStart (removeSpecial s)"
proof -
  have "trimStart (removeSpecial s) =
      dropWhile isSpace (takeWhile isSpace s @ removeSpecial (dropWhile isSpace s))"
    unfolding trimStart_def by (subst removeSpecial_leading) (rule refl)
  also have "\<dots> = dropWhile isSpace (removeSpecial (dropWhile isSpace s))"
    by (rule dropWhile_append2) (auto dest: set_takeWhileD)
  finally show ?thesis by (simp add: trimStart_def)
qed

lemma removeSpecial_rev: "removeSpecial (rev s) = rev (removeSpecial s)"
  by (simp add: removeSpecial_def rev_filter)

lemma trimEnd_removeSpecial: "trimEnd (removeSpecial (trimEnd s)) = trimEnd (removeSpecial s)"
proof -
  have "trimEnd (removeSpecial (trimEnd s)) =
      rev (trimStart (removeSpecial (trimStart (rev s))))"
    by (simp add: trimEnd_rev removeSpecial_rev)
  also have "\<dots> = rev (trimStart (removeSpecial (rev s)))"
    by (simp only: trimStart_removeSpecial)
  also have "\<dots> = trimEnd (removeSpecial s)"
    by (simp add: trimEnd_rev removeSpecial_rev)
  finally show ?thesis .
qed

lemma trimEnd_Cons:
  "trimEnd (c # cs) =
     (if \<forall>x \<in> set cs. isSpace x then (if isSpace c then [] else [c]) else c # trimEnd cs)"
  by (auto simp: trimEnd_def dropWhile_append dropWhile_eq_Nil_conv)

lemma trimEnd_all_space: "\<forall>x \<in> set s. isSpace x \<Longrightarrow> trimEnd s = []"
  by (simp add: trimEnd_def)

lemma trim_commute: "trimStart (trimEnd s) = trimEnd (trimStart s)"
proof (induction s)
  case Nil
  show ?case by (simp add: trimStart_def trimEnd_def)
next
  case (Cons c cs)
  show ?case
  proof (cases "isSpace c")
    case True
    then have "trimEnd (trimStart (c # cs)) = trimStart (trimEnd cs)"
      by (simp add: trimStart_def Cons.IH [unfolded trimStart_def])
    moreover have "trimStart (trimEnd (c # cs)) = trimStart (trimEnd cs)"
      using True by (simp add: trimEnd_Cons trimEnd_all_space) (simp add: trimStart_def)
    ultimately show ?thesis by simp
  next
    case False
    then show ?thesis by (simp add: trimEnd_Cons trimStart_def)
  qed
qed

lemma trim_removeSpecial_trim: "trim (removeSpecial (trim s)) = trim (removeSpecial s)"
proof -
  have "trim (removeSpecial (trim s)) =
      trimStart (trimEnd (removeSpecial (trimEnd (trimStart s))))"
    by (simp add: trim_def trim_commute)
  also have "\<dots> = trimStart (trimEnd (removeSpecial (trimStart s)))"
    by (simp only: trimEnd_removeSpecial)
  also have "\<dots> = trimEnd (trimStart (removeSpecial (trimStart s)))"
    by (simp only: trim_commute)
  also have "\<dots> = trimEnd (trimStart (removeSpecial s))"
    by (simp only: trimStart_removeSpecial)
  finally show ?thesis by (simp add: trim_def)
qed

lemma titleToSlug_skeleton: "titleToSlug t = slugTail (titleSkeleton t)"
proof -
  let ?x = "toLowerCase t"
  have "titleToSlug t = slugTail (removeSpecial (trim ?x))"
    by (rule titleToSlug_slugTail)
  also have "\<dots> = slugTail (trim (removeSpecial (trim ?x)))"
    by (simp only: slugTail_trim)
  also have "\<dots> = slugTail (trim (removeSpecial ?x))"
    by (simp only: trim_removeSpecial_trim)
  also have "\<dots> = slugTail (titleSkeleton t)"
    by (simp only: titleSkeleton_def slugTail_collapsed)
  finally show ?thesis .
qed

text \<open>
  C4, amended: two titles have the same identity key when they differ only in case, in
  characters that are neither word characters (letters, digits, underscore) nor
  whitespace nor hyphens, in surrounding whitespace and in the length of whitespace
  runs, that is, when their skeletons are equal.
\<close>

theorem equal_skeleton_equal_slug:
  "titleSkeleton t1 = titleSkeleton t2 \<Longrightarrow> titleToSlug t1 = titleToSlug t2"
  by (simp add: titleToSlug_skeleton)

theorem equal_skeleton_equal_slug_witness:
  "titleSkeleton ''  Two   Sum! '' = titleSkeleton ''(two) SUM''
   \<and> titleToSlug ''  Two   Sum! '' = titleToSlug ''(two) SUM''"
proof -
  have h: "titleSkeleton ''  Two   Sum! '' = titleSkeleton ''(two) SUM''"
    by code_simp
  from h equal_skeleton_equal_slug [OF h] show ?thesis by simp
qed

end
